theory Spec2Isabelle
  imports Complex_Main "HOL-Library.Sublist" "HOL-Library.Multiset"
begin

section \<open>The catalog page of skiilinkStore\<close>

text \<open>
  The development embeds \<^verbatim>\<open>src/app/components/CatalogPage.tsx\<close>: the memoised
  filter-and-sort computation \<^verbatim>\<open>filteredProducts\<close>, the reset effect, the
  \<^verbatim>\<open>loadMoreProducts\<close> callback and its timer. Arrays are JavaScript objects:
  \<^verbatim>\<open>Array.prototype.sort\<close> sorts in place and \<^verbatim>\<open>useEffect\<close> compares its
  dependencies by identity, so arrays live in an explicit store and are named by references.
\<close>

subsection \<open>Data model\<close>

text \<open>
  Modelled from the spec: the type \<^verbatim>\<open>Product\<close> is declared in
  \<^verbatim>\<open>../types/product\<close>, which is not among the sources; the fields are those of the
  data model of the specification. A JavaScript \<^verbatim>\<open>number\<close> that holds a price or a
  rating is a finite value, and the sign of the difference of two finite values is the sign of
  their real difference, so such a number is a \<^typ>\<open>real\<close>.
\<close>

record product =
  pid :: string
  name :: string
  description :: string
  category :: string
  price :: real
  rating :: real
  reviews :: int

datatype sortKey = Name | PriceLow | PriceHigh | Rating

datatype viewMode = Grid | ListView

text \<open>
  A reference to an array: the module-level array \<^verbatim>\<open>extendedProducts\<close>, or an array
  allocated by \<^verbatim>\<open>Array.prototype.filter\<close>, numbered in order of allocation.
\<close>

datatype ref = ExtendedProducts | Allocated nat

record store =
  extendedProducts :: "product list"
  allocated :: "product list list"

fun deref :: "store \<Rightarrow> ref \<Rightarrow> product list" where
  "deref s ExtendedProducts = extendedProducts s"
| "deref s (Allocated n) = (if n < length (allocated s) then allocated s ! n else [])"

definition alloc :: "store \<Rightarrow> product list \<Rightarrow> store \<times> ref" where
  "alloc s xs = (s\<lparr>allocated := allocated s @ [xs]\<rparr>, Allocated (length (allocated s)))"

fun assign :: "store \<Rightarrow> ref \<Rightarrow> product list \<Rightarrow> store" where
  "assign s ExtendedProducts xs = s\<lparr>extendedProducts := xs\<rparr>"
| "assign s (Allocated n) xs = s\<lparr>allocated := (allocated s)[n := xs]\<rparr>"

subsection \<open>Library functions of the platform\<close>

text \<open>\<^verbatim>\<open>String.prototype.toLowerCase\<close>, on the letters A to Z.\<close>

definition lowerChar :: "char \<Rightarrow> char" where
  "lowerChar c =
     (let n = (of_char c :: nat) in if 65 \<le> n \<and> n \<le> 90 then char_of (n + 32) else c)"

definition toLowerCase :: "string \<Rightarrow> string" where
  "toLowerCase s = map lowerChar s"

text \<open>\<^verbatim>\<open>String.prototype.includes\<close>: \<open>t\<close> occurs in \<open>s\<close> as a contiguous run.\<close>

fun includesStr :: "string \<Rightarrow> string \<Rightarrow> bool" where
  "includesStr [] t = (t = [])"
| "includesStr (c # s) t = (if prefix t (c # s) then True else includesStr s t)"

text \<open>\<^verbatim>\<open>Array.prototype.slice(start, end)\<close> for indices that are not negative.\<close>

definition slice :: "'a list \<Rightarrow> nat \<Rightarrow> nat \<Rightarrow> 'a list" where
  "slice xs start stop = take (stop - start) (drop start xs)"

text \<open>
  \<^verbatim>\<open>Array.prototype.sort(compareFn)\<close> is a stable sort (ECMAScript 2019): an element
  stays in front of every later element that the comparator does not put strictly before
  it. The list below is computed by stable insertion from the right.
\<close>

fun insertBy :: "('a \<Rightarrow> 'a \<Rightarrow> real) \<Rightarrow> 'a \<Rightarrow> 'a list \<Rightarrow> 'a list" where
  "insertBy cmp x [] = [x]"
| "insertBy cmp x (y # ys) = (if cmp x y \<le> 0 then x # y # ys else y # insertBy cmp x ys)"

fun sortArray :: "('a \<Rightarrow> 'a \<Rightarrow> real) \<Rightarrow> 'a list \<Rightarrow> 'a list" where
  "sortArray cmp [] = []"
| "sortArray cmp (x # xs) = insertBy cmp x (sortArray cmp xs)"

text \<open>
  A consistent comparator in the sense of ECMAScript: \<open>a\<close> is before \<open>b\<close> exactly when
  \<open>b\<close> is after \<open>a\<close>, and ``not after'' is transitive.
\<close>

definition consistentComparator :: "('a \<Rightarrow> 'a \<Rightarrow> real) \<Rightarrow> bool" where
  "consistentComparator cmp =
     ((\<forall>a b. (cmp a b < 0) = (0 < cmp b a)) \<and>
      (\<forall>a b c. cmp a b \<le> 0 \<and> cmp b c \<le> 0 \<longrightarrow> cmp a c \<le> 0))"

text \<open>
  \<^verbatim>\<open>String.prototype.localeCompare\<close> depends on the collation of the host, so the
  component takes it as the parameter \<open>lc\<close>. The comparison of strings by character code
  is one such collation, used for concrete runs.
\<close>

fun lexCompare :: "string \<Rightarrow> string \<Rightarrow> int" where
  "lexCompare [] [] = 0"
| "lexCompare [] (y # ys) = - 1"
| "lexCompare (x # xs) [] = 1"
| "lexCompare (x # xs) (y # ys) =
     (if (of_char x :: nat) < of_char y then - 1
      else if (of_char y :: nat) < of_char x then 1
      else lexCompare xs ys)"

subsection \<open>The memoised filter and sort\<close>

definition PRODUCTS_PER_LOAD :: nat where
  "PRODUCTS_PER_LOAD = 12"

text \<open>The predicate of the search filter.\<close>

definition matchesSearch :: "string \<Rightarrow> product \<Rightarrow> bool" where
  "matchesSearch localSearchQuery product =
     (includesStr (toLowerCase (name product)) (toLowerCase localSearchQuery) \<or>
      includesStr (toLowerCase (description product)) (toLowerCase localSearchQuery) \<or>
      includesStr (toLowerCase (category product)) (toLowerCase localSearchQuery))"

text \<open>The test \<^verbatim>\<open>if (currentCategory)\<close>: neither \<^verbatim>\<open>null\<close> nor the empty string.\<close>

fun categorySet :: "string option \<Rightarrow> bool" where
  "categorySet None = False"
| "categorySet (Some c) = (c \<noteq> [])"

text \<open>The comparators of the \<^verbatim>\<open>switch (sortBy)\<close>.\<close>

fun compareFn :: "(string \<Rightarrow> string \<Rightarrow> int) \<Rightarrow> sortKey \<Rightarrow> product \<Rightarrow> product \<Rightarrow> real" where
  "compareFn lc PriceLow a b = price a - price b"
| "compareFn lc PriceHigh a b = price b - price a"
| "compareFn lc Rating a b = rating b - rating a"
| "compareFn lc Name a b = real_of_int (lc (name a) (name b))"

text \<open>
  The body of the \<^verbatim>\<open>useMemo\<close>. The variable \<^verbatim>\<open>filtered\<close> starts as the array
  \<^verbatim>\<open>extendedProducts\<close> itself; each filter that applies allocates a new array; the sort
  writes into whatever array \<^verbatim>\<open>filtered\<close> then names, and that reference is returned.
\<close>

definition computeFiltered ::
  "(string \<Rightarrow> string \<Rightarrow> int) \<Rightarrow> store \<Rightarrow> string \<Rightarrow> string option \<Rightarrow> sortKey \<Rightarrow> store \<times> ref" where
  "computeFiltered lc s localSearchQuery currentCategory sortBy =
     (let filtered = ExtendedProducts;
          (s1, filtered1) =
            (if localSearchQuery \<noteq> []
             then alloc s (filter (matchesSearch localSearchQuery) (deref s filtered))
             else (s, filtered));
          (s2, filtered2) =
            (if categorySet currentCategory
             then alloc s1 (filter (\<lambda>product. Some (category product) = currentCategory)
                              (deref s1 filtered1))
             else (s1, filtered1));
          s3 = assign s2 filtered2 (sortArray (compareFn lc sortBy) (deref s2 filtered2))
      in (s3, filtered2))"

subsection \<open>The component\<close>

text \<open>
  What the function \<^verbatim>\<open>loadMoreProducts\<close> of a render holds in its closure: the values
  of \<^verbatim>\<open>loading\<close> and \<^verbatim>\<open>hasMore\<close> that its guard reads, and the
  \<^verbatim>\<open>displayedProducts.length\<close> and the \<^verbatim>\<open>filteredProducts\<close> that the callback of its
  timer reads. They are the values of that render and do not follow later changes of the
  state.
\<close>

record closure =
  closureLoading :: bool
  closureHasMore :: bool
  closureLength :: nat
  closureFiltered :: ref

text \<open>
  The state of a mounted \<^verbatim>\<open>CatalogPage\<close>: the store, the eight \<^verbatim>\<open>useState\<close>
  cells, the dependencies and the value that \<^verbatim>\<open>useMemo\<close> remembers, the dependency
  that the reset effect saw when it last ran, the \<^verbatim>\<open>loadMoreProducts\<close> that the scroll
  listener calls, which is the one of the last render, and the queue of pending
  \<^verbatim>\<open>setTimeout\<close> callbacks, each with the \<^verbatim>\<open>displayedProducts.length\<close> and the
  \<^verbatim>\<open>filteredProducts\<close> of the closure that queued it.
\<close>

record catalogPage =
  heap :: store
  displayedProducts :: "product list"
  loading :: bool
  hasMore :: bool
  currentCategory :: "string option"
  sortBy :: sortKey
  viewMode :: viewMode
  localSearchQuery :: string
  showFilters :: bool
  memoDeps :: "(string \<times> string option \<times> sortKey) option"
  filteredProducts :: ref
  effectDeps :: "ref option"
  listener :: closure
  timers :: "(nat \<times> ref) list"

text \<open>\<^verbatim>\<open>useMemo\<close>: the body runs when one of its three dependencies has changed.\<close>

definition useMemo :: "(string \<Rightarrow> string \<Rightarrow> int) \<Rightarrow> catalogPage \<Rightarrow> catalogPage" where
  "useMemo lc st =
     (let deps = (localSearchQuery st, currentCategory st, sortBy st) in
      if memoDeps st = Some deps then st
      else (let (s, r) = computeFiltered lc (heap st) (localSearchQuery st)
                           (currentCategory st) (sortBy st)
            in st\<lparr>heap := s, filteredProducts := r, memoDeps := Some deps\<rparr>))"

text \<open>The closure of the \<^verbatim>\<open>loadMoreProducts\<close> that a render of a state creates.\<close>

definition closureOf :: "catalogPage \<Rightarrow> closure" where
  "closureOf st =
     \<lparr>closureLoading = loading st,
      closureHasMore = hasMore st,
      closureLength = length (displayedProducts st),
      closureFiltered = filteredProducts st\<rparr>"

text \<open>
  The reset effect: it runs when \<^verbatim>\<open>filteredProducts\<close> is not the array it saw the
  last time.
\<close>

definition resetEffect :: "catalogPage \<Rightarrow> catalogPage" where
  "resetEffect st =
     (if effectDeps st = Some (filteredProducts st) then st
      else st\<lparr>displayedProducts :=
                 slice (deref (heap st) (filteredProducts st)) 0 PRODUCTS_PER_LOAD,
               hasMore := (length (deref (heap st) (filteredProducts st)) > PRODUCTS_PER_LOAD),
               effectDeps := Some (filteredProducts st)\<rparr>)"

text \<open>
  A render and its effects: the memo is brought up to date, \<^verbatim>\<open>loadMoreProducts\<close> is
  created from the values of the state that the render reads, the reset effect runs, and
  the scroll effect makes the listener call the \<^verbatim>\<open>loadMoreProducts\<close> of this render. What
  the reset effect sets is seen by the next render only.
\<close>

definition render :: "(string \<Rightarrow> string \<Rightarrow> int) \<Rightarrow> catalogPage \<Rightarrow> catalogPage" where
  "render lc st =
     (let st1 = useMemo lc st;
          loadMore = closureOf st1;
          st2 = resetEffect st1
      in st2\<lparr>listener := loadMore\<rparr>)"

text \<open>The initial values of the \<^verbatim>\<open>useState\<close> cells, and the first render.\<close>

definition initialState :: "product list \<Rightarrow> string \<Rightarrow> string option \<Rightarrow> catalogPage" where
  "initialState catalog searchQuery selectedCategory =
     \<lparr>heap = \<lparr>extendedProducts = catalog, allocated = []\<rparr>,
      displayedProducts = [],
      loading = False,
      hasMore = True,
      currentCategory = selectedCategory,
      sortBy = Name,
      viewMode = Grid,
      localSearchQuery = searchQuery,
      showFilters = False,
      memoDeps = None,
      filteredProducts = ExtendedProducts,
      effectDeps = None,
      listener = \<lparr>closureLoading = False, closureHasMore = True, closureLength = 0,
                   closureFiltered = ExtendedProducts\<rparr>,
      timers = []\<rparr>"

definition mount ::
  "(string \<Rightarrow> string \<Rightarrow> int) \<Rightarrow> product list \<Rightarrow> string \<Rightarrow> string option \<Rightarrow> catalogPage" where
  "mount lc catalog searchQuery selectedCategory =
     render lc (initialState catalog searchQuery selectedCategory)"

text \<open>
  \<^verbatim>\<open>loadMoreProducts\<close>, as the scroll listener calls it, up to the call of
  \<^verbatim>\<open>setTimeout\<close>: the guard reads \<^verbatim>\<open>loading\<close> and \<^verbatim>\<open>hasMore\<close> of the closure,
  \<^verbatim>\<open>setLoading(true)\<close> writes the state, and the callback is queued with what the
  closure holds.
\<close>

definition loadMoreProducts :: "catalogPage \<Rightarrow> catalogPage" where
  "loadMoreProducts st =
     (if closureLoading (listener st) \<or> \<not> closureHasMore (listener st) then st
      else st\<lparr>loading := True,
               timers := timers st @
                 [(closureLength (listener st), closureFiltered (listener st))]\<rparr>)"

text \<open>
  The callback of the timer that is due first. \<^verbatim>\<open>setDisplayedProducts\<close> is called with
  a function of the previous value, so it appends to the displayed list of the state.
\<close>

definition timeoutCallback :: "catalogPage \<Rightarrow> catalogPage" where
  "timeoutCallback st =
     (case timers st of
        [] \<Rightarrow> st
      | (currentLength, filtered) # rest \<Rightarrow>
          (let nextProducts = slice (deref (heap st) filtered) currentLength
                                (currentLength + PRODUCTS_PER_LOAD);
               st1 = (if length nextProducts = 0 then st\<lparr>hasMore := False\<rparr>
                      else st\<lparr>displayedProducts := displayedProducts st @ nextProducts\<rparr>)
           in st1\<lparr>loading := False, timers := rest\<rparr>))"

text \<open>
  What can happen to a mounted page: the five setters that the controls call, a scroll near
  the end of the page, a timer that fires, and a render. A setter, the listener and the
  callback write the state; the memo, the reset effect and the listener follow at the next
  render, and other events may come before it.
\<close>

datatype event =
    SetLocalSearchQuery string
  | SetCurrentCategory "string option"
  | SetSortBy sortKey
  | SetViewMode viewMode
  | SetShowFilters bool
  | Scroll
  | Timeout
  | Render

fun step :: "(string \<Rightarrow> string \<Rightarrow> int) \<Rightarrow> catalogPage \<Rightarrow> event \<Rightarrow> catalogPage" where
  "step lc st (SetLocalSearchQuery q) = st\<lparr>localSearchQuery := q\<rparr>"
| "step lc st (SetCurrentCategory c) = st\<lparr>currentCategory := c\<rparr>"
| "step lc st (SetSortBy k) = st\<lparr>sortBy := k\<rparr>"
| "step lc st (SetViewMode v) = st\<lparr>viewMode := v\<rparr>"
| "step lc st (SetShowFilters b) = st\<lparr>showFilters := b\<rparr>"
| "step lc st Scroll = loadMoreProducts st"
| "step lc st Timeout = timeoutCallback st"
| "step lc st Render = render lc st"

fun run :: "(string \<Rightarrow> string \<Rightarrow> int) \<Rightarrow> catalogPage \<Rightarrow> event list \<Rightarrow> catalogPage" where
  "run lc st [] = st"
| "run lc st (ev # evs) = run lc (step lc st ev) evs"

text \<open>The states of a page mounted on a catalog.\<close>

inductive reachable :: "(string \<Rightarrow> string \<Rightarrow> int) \<Rightarrow> product list \<Rightarrow> catalogPage \<Rightarrow> bool"
  for lc :: "string \<Rightarrow> string \<Rightarrow> int" and catalog :: "product list" where
  reachable_mount: "reachable lc catalog (mount lc catalog searchQuery selectedCategory)"
| reachable_step: "reachable lc catalog st \<Longrightarrow> reachable lc catalog (step lc st ev)"

text \<open>A state that a render has left: the memo and the effect have seen the current values.\<close>

definition rendered :: "catalogPage \<Rightarrow> bool" where
  "rendered st =
     (memoDeps st = Some (localSearchQuery st, currentCategory st, sortBy st) \<and>
      effectDeps st = Some (filteredProducts st))"

text \<open>
  The page is up to date: it has rendered since the state last changed, so that the closure
  of the listener holds the values of the state.
\<close>

definition upToDate :: "catalogPage \<Rightarrow> bool" where
  "upToDate st =
     (rendered st \<and>
      closureLoading (listener st) = loading st \<and>
      closureHasMore (listener st) = hasMore st \<and>
      closureLength (listener st) = length (displayedProducts st) \<and>
      closureFiltered (listener st) = filteredProducts st)"

text \<open>
  The runs in which the listener is called only when the page is up to date, and a filter
  input changes only when no load is pending.
\<close>

fun allowed :: "catalogPage \<Rightarrow> event \<Rightarrow> bool" where
  "allowed st Scroll = upToDate st"
| "allowed st (SetLocalSearchQuery q) = (timers st = [])"
| "allowed st (SetCurrentCategory c) = (timers st = [])"
| "allowed st (SetSortBy k) = (timers st = [])"
| "allowed st ev = True"

fun allowedRun :: "(string \<Rightarrow> string \<Rightarrow> int) \<Rightarrow> catalogPage \<Rightarrow> event list \<Rightarrow> bool" where
  "allowedRun lc st [] = True"
| "allowedRun lc st (ev # evs) = (if allowed st ev then allowedRun lc (step lc st ev) evs else False)"

inductive settled :: "(string \<Rightarrow> string \<Rightarrow> int) \<Rightarrow> product list \<Rightarrow> catalogPage \<Rightarrow> bool"
  for lc :: "string \<Rightarrow> string \<Rightarrow> int" and catalog :: "product list" where
  settled_mount: "settled lc catalog (mount lc catalog searchQuery selectedCategory)"
| settled_step: "settled lc catalog st \<Longrightarrow> allowed st ev \<Longrightarrow> settled lc catalog (step lc st ev)"

text \<open>The list that \<^verbatim>\<open>filteredProducts\<close> names in a state.\<close>

definition filteredList :: "catalogPage \<Rightarrow> product list" where
  "filteredList st = deref (heap st) (filteredProducts st)"

text \<open>The contents of the array that the body of the \<^verbatim>\<open>useMemo\<close> returns.\<close>

definition filteredOutput ::
  "(string \<Rightarrow> string \<Rightarrow> int) \<Rightarrow> store \<Rightarrow> string \<Rightarrow> string option \<Rightarrow> sortKey \<Rightarrow> product list" where
  "filteredOutput lc s q c k = (case computeFiltered lc s q c k of (s', r) \<Rightarrow> deref s' r)"

subsection \<open>The properties, in the words of the specification\<close>

text \<open>A string contains a query, case being ignored.\<close>

definition containsIgnoringCase :: "string \<Rightarrow> string \<Rightarrow> bool" where
  "containsIgnoringCase s q = sublist (toLowerCase q) (toLowerCase s)"

text \<open>
  The conjunction of the two filters: (a) applies when the query is not empty, (b) when a
  category is set, which is the test of the source (neither \<^verbatim>\<open>null\<close> nor empty).
\<close>

definition satisfiesFilters :: "string \<Rightarrow> string option \<Rightarrow> product \<Rightarrow> bool" where
  "satisfiesFilters q c p =
     ((if q = [] then True
       else containsIgnoringCase (name p) q \<or> containsIgnoringCase (description p) q \<or>
            containsIgnoringCase (category p) q) \<and>
      (if categorySet c then Some (category p) = c else True))"

text \<open>Two products are in the order of a sort key, and two products have the same key.\<close>

fun inOrder :: "(string \<Rightarrow> string \<Rightarrow> int) \<Rightarrow> sortKey \<Rightarrow> product \<Rightarrow> product \<Rightarrow> bool" where
  "inOrder lc Name a b = (lc (name a) (name b) \<le> 0)"
| "inOrder lc PriceLow a b = (price a \<le> price b)"
| "inOrder lc PriceHigh a b = (price b \<le> price a)"
| "inOrder lc Rating a b = (rating b \<le> rating a)"

fun sameKey :: "(string \<Rightarrow> string \<Rightarrow> int) \<Rightarrow> sortKey \<Rightarrow> product \<Rightarrow> product \<Rightarrow> bool" where
  "sameKey lc Name a b = (lc (name b) (name a) = 0)"
| "sameKey lc PriceLow a b = (price b = price a)"
| "sameKey lc PriceHigh a b = (price b = price a)"
| "sameKey lc Rating a b = (rating b = rating a)"

subsection \<open>Invariants\<close>

fun validRef :: "store \<Rightarrow> ref \<Rightarrow> bool" where
  "validRef s ExtendedProducts = True"
| "validRef s (Allocated n) = (n < length (allocated s))"

text \<open>
  The invariant of the pagination in the runs in which the listener is called only when the
  page is up to date and no filter input changes under a pending load.
\<close>

definition pagingInv :: "catalogPage \<Rightarrow> bool" where
  "pagingInv st =
     (validRef (heap st) (filteredProducts st) \<and>
      effectDeps st = Some (filteredProducts st) \<and>
      memoDeps st \<noteq> None \<and>
      (timers st = [] \<or>
       timers st = [(length (displayedProducts st), filteredProducts st)] \<and> rendered st) \<and>
      loading st = (timers st \<noteq> []) \<and>
      length (displayedProducts st) \<le> length (filteredList st) \<and>
      (hasMore st \<or> length (filteredList st) \<le> length (displayedProducts st)))"

text \<open>
  The invariant of the store: the array \<^verbatim>\<open>extendedProducts\<close> is a permutation of the
  catalog the page was mounted on, and the memoised array is a permutation of the products
  of that catalog which satisfy the filters the memo was computed for.
\<close>

definition catalogInv :: "product list \<Rightarrow> catalogPage \<Rightarrow> bool" where
  "catalogInv catalog st =
     (mset (extendedProducts (heap st)) = mset catalog \<and>
      (\<exists>q c k. memoDeps st = Some (q, c, k) \<and>
         mset (filteredList st) = filter_mset (satisfiesFilters q c) (mset catalog)))"

subsection \<open>Concrete catalogs\<close>

definition phone :: product where
  "phone = \<lparr>pid = ''1'', name = ''Phone'', description = ''A smart device'',
            category = ''tech'', price = 300, rating = 4, reviews = 10\<rparr>"

definition lamp :: product where
  "lamp = \<lparr>pid = ''2'', name = ''Lamp'', description = ''Lights your PHONE desk'',
           category = ''home'', price = 20, rating = 5, reviews = 3\<rparr>"

definition chair :: product where
  "chair = \<lparr>pid = ''3'', name = ''Chair'', description = ''Wooden'',
            category = ''home'', price = 50, rating = 3, reviews = 7\<rparr>"

definition lamp2 :: product where
  "lamp2 = \<lparr>pid = ''4'', name = ''Lamp'', description = ''Brass'',
            category = ''home'', price = 20, rating = 2, reviews = 1\<rparr>"

definition catalog3 :: "product list" where
  "catalog3 = [phone, lamp, chair]"

definition catalog4 :: "product list" where
  "catalog4 = [phone, lamp, chair, lamp2]"

definition item :: "string \<Rightarrow> string \<Rightarrow> real \<Rightarrow> product" where
  "item n c p = \<lparr>pid = n, name = n, description = [], category = c, price = p,
                 rating = 4, reviews = 10\<rparr>"

definition catalog2 :: "product list" where
  "catalog2 = [item ''a'' ''x'' 2, item ''b'' ''x'' 1]"

definition catalog13 :: "product list" where
  "catalog13 =
     [item ''a'' ''x'' 1, item ''b'' ''x'' 2, item ''c'' ''x'' 3, item ''d'' ''x'' 4,
      item ''e'' ''x'' 5, item ''f'' ''x'' 6, item ''g'' ''x'' 7, item ''h'' ''x'' 8,
      item ''i'' ''x'' 9, item ''j'' ''x'' 10, item ''k'' ''x'' 11, item ''l'' ''x'' 12,
      item ''m'' ''y'' 13]"

definition storeOf :: "product list \<Rightarrow> store" where
  "storeOf catalog = \<lparr>extendedProducts = catalog, allocated = []\<rparr>"

subsection \<open>Concrete runs\<close>

text \<open>
  States of a page mounted on the catalog of thirteen products with no search query and no
  category. The page has rendered again after its first effects; a scroll has started a
  load; the load has completed; a second load has found nothing more.
\<close>

definition renderedState :: catalogPage where
  "renderedState = run lexCompare (mount lexCompare catalog13 [] None) [Render]"

definition loadingState :: catalogPage where
  "loadingState = run lexCompare renderedState [Scroll]"

definition exhaustedState :: catalogPage where
  "exhaustedState = run lexCompare renderedState [Scroll, Render, Timeout, Render]"

definition clearedState :: catalogPage where
  "clearedState = run lexCompare exhaustedState [Scroll, Render, Timeout, Render]"

text \<open>
  Two scroll events before the page renders again, and then the two timers and a render.
\<close>

definition twoLoadsState :: catalogPage where
  "twoLoadsState = run lexCompare loadingState [Scroll]"

definition twoLoadsDoneState :: catalogPage where
  "twoLoadsDoneState = run lexCompare twoLoadsState [Render, Timeout, Timeout, Render]"

text \<open>
  A change of the sort key on the catalog of two products; and, on the catalog of thirteen,
  a load that is started before a change of the search query, or of the category, and
  completes after it.
\<close>

definition resortedState :: catalogPage where
  "resortedState =
     run lexCompare (mount lexCompare catalog2 [] None) [Render, SetSortBy PriceLow, Render]"

definition staleSearchState :: catalogPage where
  "staleSearchState =
     run lexCompare loadingState [Render, SetLocalSearchQuery ''m'', Render, Timeout, Render]"

definition categoryChangedState :: catalogPage where
  "categoryChangedState =
     run lexCompare loadingState [Render, SetCurrentCategory (Some ''y''), Render]"

definition staleCategoryState :: catalogPage where
  "staleCategoryState = run lexCompare categoryChangedState [Timeout, Render]"

definition queryChangedState :: catalogPage where
  "queryChangedState =
     run lexCompare loadingState [Render, SetLocalSearchQuery ''a'', Render]"

definition staleAppendState :: catalogPage where
  "staleAppendState = run lexCompare queryChangedState [Timeout, Render]"

section \<open>Library functions\<close>

lemma includesStr_sublist: "includesStr s t = sublist t s"
  by (induction s) (auto simp: sublist_Cons_right)

lemma matchesSearch_contains:
  "matchesSearch q p =
     (containsIgnoringCase (name p) q \<or> containsIgnoringCase (description p) q \<or>
      containsIgnoringCase (category p) q)"
  by (simp add: matchesSearch_def containsIgnoringCase_def includesStr_sublist)

lemma length_slice: "length (slice xs a b) = min (b - a) (length xs - a)"
  by (simp add: slice_def)

lemma slice_empty: "(slice xs n (n + PRODUCTS_PER_LOAD) = []) = (length xs \<le> n)"
  by (simp add: slice_def PRODUCTS_PER_LOAD_def)

subsection \<open>The sort is a permutation\<close>

lemma mset_insertBy: "mset (insertBy cmp x xs) = add_mset x (mset xs)"
  by (induction xs) auto

lemma mset_sortArray: "mset (sortArray cmp xs) = mset xs"
  by (induction xs) (auto simp: mset_insertBy)

lemma set_insertBy: "set (insertBy cmp x xs) = insert x (set xs)"
  by (induction xs) auto


lemma length_sortArray: "length (sortArray cmp xs) = length xs"
  using mset_sortArray [of cmp xs] by (metis size_mset)

subsection \<open>The sort orders its input and is stable\<close>

lemma consistent_total: "consistentComparator cmp \<Longrightarrow> \<not> cmp a b \<le> 0 \<Longrightarrow> cmp b a \<le> 0"
  unfolding consistentComparator_def by (metis less_eq_real_def not_le)

lemma consistent_trans:
  "consistentComparator cmp \<Longrightarrow> cmp a b \<le> 0 \<Longrightarrow> cmp b c \<le> 0 \<Longrightarrow> cmp a c \<le> 0"
  unfolding consistentComparator_def by blast

lemma consistent_sym: "consistentComparator cmp \<Longrightarrow> cmp a b = 0 \<Longrightarrow> cmp b a = 0"
  unfolding consistentComparator_def by (metis less_irrefl linorder_less_linear)

lemma sorted_insertBy:
  assumes "consistentComparator cmp" "sorted_wrt (\<lambda>a b. cmp a b \<le> 0) xs"
  shows "sorted_wrt (\<lambda>a b. cmp a b \<le> 0) (insertBy cmp x xs)"
  using assms(2)
proof (induction xs)
  case Nil
  show ?case by simp
next
  case (Cons y ys)
  show ?case
  proof (cases "cmp x y \<le> 0")
    case True
    then have "\<forall>z\<in>set ys. cmp x z \<le> 0"
      using Cons.prems consistent_trans [OF assms(1)] by auto
    with True Cons.prems show ?thesis by simp
  next
    case False
    then have "cmp y x \<le> 0" by (rule consistent_total [OF assms(1)])
    with False Cons show ?thesis by (auto simp: set_insertBy)
  qed
qed

lemma sorted_sortArray:
  "consistentComparator cmp \<Longrightarrow> sorted_wrt (\<lambda>a b. cmp a b \<le> 0) (sortArray cmp xs)"
  by (induction xs) (simp_all add: sorted_insertBy)

lemma filter_insertBy:
  assumes "consistentComparator cmp"
  shows "filter (\<lambda>y. cmp y a = 0) (insertBy cmp x xs) =
         (if cmp x a = 0 then x # filter (\<lambda>y. cmp y a = 0) xs
          else filter (\<lambda>y. cmp y a = 0) xs)"
proof (induction xs)
  case Nil
  show ?case by simp
next
  case (Cons y ys)
  have "cmp x y \<le> 0" if "cmp x a = 0" "cmp y a = 0"
    using that consistent_sym [OF assms, of y a] consistent_trans [OF assms, of x a y] by simp
  with Cons show ?case by auto
qed

lemma stable_sortArray:
  "consistentComparator cmp \<Longrightarrow>
   filter (\<lambda>y. cmp y a = 0) (sortArray cmp xs) = filter (\<lambda>y. cmp y a = 0) xs"
  by (induction xs) (simp_all add: filter_insertBy)

lemma consistent_price:
  "consistentComparator (compareFn lc PriceLow)"
  "consistentComparator (compareFn lc PriceHigh)"
  "consistentComparator (compareFn lc Rating)"
  by (auto simp: consistentComparator_def)

lemma consistent_name:
  "consistentComparator (\<lambda>a b. real_of_int (lc a b)) \<Longrightarrow>
   consistentComparator (compareFn lc Name)"
  unfolding consistentComparator_def compareFn.simps by blast

lemma consistent_compareFn:
  "(k = Name \<Longrightarrow> consistentComparator (\<lambda>a b. real_of_int (lc a b))) \<Longrightarrow>
   consistentComparator (compareFn lc k)"
  by (cases k) (simp_all add: consistent_price consistent_name)

text \<open>
  For a consistent comparator there is one stable sort: a sorted permutation of a list that
  keeps the order of the elements of every class of equal elements is the list that
  \<open>sortArray\<close> computes.
\<close>

lemma consistent_flip: "consistentComparator cmp \<Longrightarrow> (cmp a b < 0) = (0 < cmp b a)"
  unfolding consistentComparator_def by blast

lemma consistent_refl_le: "consistentComparator cmp \<Longrightarrow> cmp a a \<le> 0"
  using consistent_flip [of cmp a a] by linarith

lemma consistent_antisym:
  "consistentComparator cmp \<Longrightarrow> cmp a b \<le> 0 \<Longrightarrow> cmp b a \<le> 0 \<Longrightarrow> cmp a b = 0"
  using consistent_flip [of cmp a b] by linarith

lemma stable_sort_unique:
  assumes "consistentComparator cmp"
    and "sorted_wrt (\<lambda>a b. cmp a b \<le> 0) ys" "sorted_wrt (\<lambda>a b. cmp a b \<le> 0) zs"
    and "mset ys = mset zs"
    and "\<And>a. filter (\<lambda>y. cmp y a = 0) ys = filter (\<lambda>y. cmp y a = 0) zs"
  shows "ys = zs"
  using assms(2-)
proof (induction ys arbitrary: zs)
  case Nil
  then show ?case by simp
next
  case (Cons y ys)
  then obtain z zs' where zs: "zs = z # zs'"
    by (cases zs) auto
  have "z \<in> set (y # ys)" "y \<in> set (z # zs')"
    using Cons.prems(3) zs by (metis list.set_intros(1) set_mset_mset)+
  then have "cmp y z \<le> 0" "cmp z y \<le> 0"
    using Cons.prems(1,2) zs consistent_refl_le [OF assms(1)] by auto
  then have e: "cmp z y = 0" "cmp y y = 0"
    using consistent_antisym [OF assms(1)] consistent_refl_le [OF assms(1)] by auto
  then have yz: "y = z"
    using Cons.prems(4) [of y] zs by simp
  have "ys = zs'"
  proof (rule Cons.IH)
    show "sorted_wrt (\<lambda>a b. cmp a b \<le> 0) ys" "sorted_wrt (\<lambda>a b. cmp a b \<le> 0) zs'"
      using Cons.prems(1,2) zs by simp_all
    show "mset ys = mset zs'"
      using Cons.prems(3) zs yz by simp
    show "filter (\<lambda>y. cmp y a = 0) ys = filter (\<lambda>y. cmp y a = 0) zs'" for a
      using Cons.prems(4) [of a] zs yz by (simp split: if_splits)
  qed
  with yz zs show ?case by simp
qed

lemma sortArray_unique:
  assumes "consistentComparator cmp"
    and "sorted_wrt (\<lambda>a b. cmp a b \<le> 0) ys" and "mset ys = mset xs"
    and "\<And>a. filter (\<lambda>y. cmp y a = 0) ys = filter (\<lambda>y. cmp y a = 0) xs"
  shows "ys = sortArray cmp xs"
proof (rule stable_sort_unique [OF assms(1,2)])
  show "sorted_wrt (\<lambda>a b. cmp a b \<le> 0) (sortArray cmp xs)"
    using assms(1) by (rule sorted_sortArray)
  show "mset ys = mset (sortArray cmp xs)"
    using assms(3) by (simp add: mset_sortArray)
  show "filter (\<lambda>y. cmp y a = 0) ys = filter (\<lambda>y. cmp y a = 0) (sortArray cmp xs)" for a
    using assms(4) [of a] stable_sortArray [OF assms(1), of a xs] by simp
qed

lemma inOrder_compareFn: "inOrder lc k a b = (compareFn lc k a b \<le> 0)"
  by (cases k) simp_all

lemma sameKey_compareFn: "sameKey lc k a b = (compareFn lc k b a = 0)"
  by (cases k) auto

subsection \<open>Comparison by character code is a consistent collation\<close>

lemma lexCompare_flip: "(lexCompare a b < 0) = (0 < lexCompare b a)"
  by (induction a b rule: lexCompare.induct) auto

lemma lexCompare_le_Cons:
  "(lexCompare (x # xs) (y # ys) \<le> 0) =
     ((of_char x :: nat) < of_char y \<or>
      (of_char x :: nat) = of_char y \<and> lexCompare xs ys \<le> 0)"
  by auto

lemma lexCompare_le_Nil: "lexCompare [] b \<le> 0" "(lexCompare (x # xs) [] \<le> 0) = False"
  by (cases b) simp_all

lemma lexCompare_trans:
  "lexCompare a b \<le> 0 \<Longrightarrow> lexCompare b c \<le> 0 \<Longrightarrow> lexCompare a c \<le> 0"
proof (induction a arbitrary: b c)
  case Nil
  show ?case by (rule lexCompare_le_Nil)
next
  case (Cons x xs)
  obtain y ys where b: "b = y # ys"
    using Cons.prems(1) by (cases b) (simp_all add: lexCompare_le_Nil)
  obtain z zs where c: "c = z # zs"
    using Cons.prems(2) b by (cases c) (simp_all add: lexCompare_le_Nil)
  from Cons.prems Cons.IH [of ys zs] show ?case
    unfolding b c lexCompare_le_Cons by (metis less_trans)
qed

lemma consistent_lexCompare: "consistentComparator (\<lambda>a b. real_of_int (lexCompare a b))"
proof -
  have "(real_of_int (lexCompare a b) < 0) = (0 < real_of_int (lexCompare b a))" for a b
    using lexCompare_flip [of a b] by simp
  moreover have "real_of_int (lexCompare a c) \<le> 0"
    if "real_of_int (lexCompare a b) \<le> 0 \<and> real_of_int (lexCompare b c) \<le> 0" for a b c
    using that lexCompare_trans [of a b c] by simp
  ultimately show ?thesis unfolding consistentComparator_def by blast
qed

section \<open>The filter and sort stage\<close>

lemma filter_satisfiesFilters:
  "filter (satisfiesFilters q c) xs =
     (if categorySet c then filter (\<lambda>p. Some (category p) = c) else (\<lambda>ys. ys))
       ((if q \<noteq> [] then filter (matchesSearch q) else (\<lambda>ys. ys)) xs)"
  by (induction xs) (auto simp: satisfiesFilters_def matchesSearch_contains)

lemma filteredOutput_eq:
  "filteredOutput lc s q c k =
     sortArray (compareFn lc k) (filter (satisfiesFilters q c) (extendedProducts s))"
proof -
  have n: "(xs @ [a, b]) ! Suc (length xs) = b" for xs :: "'b list" and a b
    by (simp add: nth_append)
  show ?thesis
    unfolding filter_satisfiesFilters filteredOutput_def
    by (cases "q = []"; cases "categorySet c") (simp_all add: computeFiltered_def alloc_def n)
qed



text \<open>
  Claim C10. The output of the filter and sort stage is a permutation of the products of
  the catalog that satisfy the two filters; with an empty query and no category it is a
  permutation of the whole catalog.
\<close>

theorem filteredProducts_permutes_catalog:
  "mset (filteredOutput lc s q c k) = filter_mset (satisfiesFilters q c) (mset (extendedProducts s)) \<and>
   mset (filteredOutput lc s [] None k) = mset (extendedProducts s)"
proof -
  have "filter (satisfiesFilters [] None) xs = xs" for xs
    by (simp add: satisfiesFilters_def)
  then show ?thesis
    by (simp add: filteredOutput_eq mset_sortArray)
qed

theorem filteredProducts_permutes_catalog_witness:
  "mset (filteredOutput lexCompare (storeOf catalog3) [] None Name) = {#phone, lamp, chair#} \<and>
   filteredOutput lexCompare (storeOf catalog3) [] None Name = [chair, lamp, phone]"
proof -
  have e: "filteredOutput lexCompare (storeOf catalog3) [] None Name = [chair, lamp, phone]"
    by code_simp
  have "mset (filteredOutput lexCompare (storeOf catalog3) [] None Name) =
      mset (extendedProducts (storeOf catalog3))"
    using filteredProducts_permutes_catalog [of lexCompare "storeOf catalog3" "[]" None Name]
    by (rule conjunct2)
  then show ?thesis
    using e by (simp add: storeOf_def catalog3_def)
qed

text \<open>
  Claim C2. For every filter result and every sort key, the sort of the stage is stable:
  the products that have the same key as a given product stand in the output in the order
  in which they stand in the filter result. The output is ordered: any two of its products,
  and so any two adjacent ones, are in the order of the key, which is by names not
  decreasing under \<^verbatim>\<open>localeCompare\<close>, by prices not decreasing, by prices not
  increasing, or by ratings not increasing. For the key \<open>Name\<close> the collation is taken
  to be a consistent comparator.
\<close>

theorem sort_stable_and_ordered:
  assumes "k = Name \<Longrightarrow> consistentComparator (\<lambda>a b. real_of_int (lc a b))"
  shows "(\<forall>a. filter (sameKey lc k a) (filteredOutput lc s q c k) =
              filter (sameKey lc k a) (filter (satisfiesFilters q c) (extendedProducts s))) \<and>
         sorted_wrt (inOrder lc k) (filteredOutput lc s q c k) \<and>
         (\<forall>i. Suc i < length (filteredOutput lc s q c k) \<longrightarrow>
              inOrder lc k (filteredOutput lc s q c k ! i) (filteredOutput lc s q c k ! Suc i))"
proof -
  have con: "consistentComparator (compareFn lc k)"
    using assms by (rule consistent_compareFn)
  have i: "inOrder lc k = (\<lambda>a b. compareFn lc k a b \<le> 0)"
    by (simp add: fun_eq_iff inOrder_compareFn)
  have s: "sameKey lc k a = (\<lambda>y. compareFn lc k y a = 0)" for a
    by (simp add: fun_eq_iff sameKey_compareFn)
  have sorted: "sorted_wrt (inOrder lc k) (filteredOutput lc s q c k)"
    unfolding i filteredOutput_eq using con by (rule sorted_sortArray)
  have stable: "filter (sameKey lc k a) (filteredOutput lc s q c k) =
      filter (sameKey lc k a) (filter (satisfiesFilters q c) (extendedProducts s))" for a
    unfolding s filteredOutput_eq using con by (rule stable_sortArray)
  have "inOrder lc k (filteredOutput lc s q c k ! i) (filteredOutput lc s q c k ! Suc i)"
    if "Suc i < length (filteredOutput lc s q c k)" for i
    using sorted that by (simp add: sorted_wrt_iff_nth_less)
  with sorted stable show ?thesis by blast
qed

theorem sort_stable_and_ordered_witness:
  "consistentComparator (\<lambda>a b. real_of_int (lexCompare a b)) \<and>
   filter (sameKey lexCompare Name lamp2) (filteredOutput lexCompare (storeOf catalog4) [] None Name) =
     [lamp, lamp2] \<and>
   sorted_wrt (inOrder lexCompare Name) (filteredOutput lexCompare (storeOf catalog4) [] None Name) \<and>
   inOrder lexCompare Name (filteredOutput lexCompare (storeOf catalog4) [] None Name ! 0)
     (filteredOutput lexCompare (storeOf catalog4) [] None Name ! Suc 0)"
proof -
  have e: "filter (sameKey lexCompare Name lamp2)
      (filter (satisfiesFilters [] None) (extendedProducts (storeOf catalog4))) = [lamp, lamp2]"
    by code_simp
  have l: "Suc 0 < length (filteredOutput lexCompare (storeOf catalog4) [] None Name)"
    by (simp add: filteredOutput_eq length_sortArray storeOf_def catalog4_def satisfiesFilters_def)
  show ?thesis
    using sort_stable_and_ordered [of Name lexCompare "storeOf catalog4" "[]" None,
        OF consistent_lexCompare] consistent_lexCompare e l
    by simp
qed

section \<open>Renders\<close>

lemma useMemo_fields [simp]:
  "displayedProducts (useMemo lc st) = displayedProducts st"
  "loading (useMemo lc st) = loading st"
  "hasMore (useMemo lc st) = hasMore st"
  "currentCategory (useMemo lc st) = currentCategory st"
  "sortBy (useMemo lc st) = sortBy st"
  "viewMode (useMemo lc st) = viewMode st"
  "localSearchQuery (useMemo lc st) = localSearchQuery st"
  "showFilters (useMemo lc st) = showFilters st"
  "effectDeps (useMemo lc st) = effectDeps st"
  "listener (useMemo lc st) = listener st"
  "timers (useMemo lc st) = timers st"
  "memoDeps (useMemo lc st) = Some (localSearchQuery st, currentCategory st, sortBy st)"
  by (simp_all add: useMemo_def Let_def split: prod.splits)

lemma resetEffect_fields [simp]:
  "heap (resetEffect st) = heap st"
  "loading (resetEffect st) = loading st"
  "currentCategory (resetEffect st) = currentCategory st"
  "sortBy (resetEffect st) = sortBy st"
  "viewMode (resetEffect st) = viewMode st"
  "localSearchQuery (resetEffect st) = localSearchQuery st"
  "showFilters (resetEffect st) = showFilters st"
  "memoDeps (resetEffect st) = memoDeps st"
  "filteredProducts (resetEffect st) = filteredProducts st"
  "listener (resetEffect st) = listener st"
  "timers (resetEffect st) = timers st"
  "effectDeps (resetEffect st) = Some (filteredProducts st)"
  by (simp_all add: resetEffect_def)

lemma render_fields [simp]:
  "loading (render lc st) = loading st"
  "currentCategory (render lc st) = currentCategory st"
  "sortBy (render lc st) = sortBy st"
  "viewMode (render lc st) = viewMode st"
  "localSearchQuery (render lc st) = localSearchQuery st"
  "showFilters (render lc st) = showFilters st"
  "timers (render lc st) = timers st"
  "memoDeps (render lc st) = Some (localSearchQuery st, currentCategory st, sortBy st)"
  "effectDeps (render lc st) = Some (filteredProducts (render lc st))"
  by (simp_all add: render_def Let_def)

lemma rendered_render: "rendered (render lc st)"
  by (simp add: rendered_def)

lemma render_rendered: "rendered st \<Longrightarrow> render lc st = st\<lparr>listener := closureOf st\<rparr>"
  by (simp add: rendered_def render_def useMemo_def resetEffect_def)

lemma upToDate_render: "rendered st \<Longrightarrow> upToDate (render lc st)"
  by (simp add: render_rendered) (simp add: upToDate_def rendered_def closureOf_def)

section \<open>Reachable states\<close>

lemma reachable_run: "reachable lc catalog st \<Longrightarrow> reachable lc catalog (run lc st evs)"
  by (induction evs arbitrary: st) (auto intro: reachable_step)

lemma reachable_renderedState: "reachable lexCompare catalog13 renderedState"
  unfolding renderedState_def by (intro reachable_run reachable_mount)

lemma reachable_loadingState: "reachable lexCompare catalog13 loadingState"
  unfolding loadingState_def by (intro reachable_run reachable_renderedState)

section \<open>Runs in which the page is up to date at every scroll\<close>

lemma computeFiltered_fresh:
  assumes "computeFiltered lc s q c k = (s', r)"
  shows "validRef s' r"
    and "r = Allocated n \<Longrightarrow> length (allocated s) \<le> n"
    and "r = ExtendedProducts \<Longrightarrow> length (extendedProducts s') = length (extendedProducts s)"
  using assms
  by (auto simp: computeFiltered_def alloc_def length_sortArray split: if_splits)

lemma pagingInv_listener: "pagingInv (st\<lparr>listener := cl\<rparr>) = pagingInv st"
  by (simp add: pagingInv_def filteredList_def rendered_def)

lemma pagingInv_reset:
  assumes "validRef (heap st) (filteredProducts st)" "timers st = []" "\<not> loading st"
    "effectDeps st \<noteq> Some (filteredProducts st)" "memoDeps st \<noteq> None"
  shows "pagingInv (resetEffect st)"
  using assms
  by (auto simp: pagingInv_def resetEffect_def filteredList_def length_slice PRODUCTS_PER_LOAD_def)

lemma pagingInv_render:
  assumes "pagingInv st"
  shows "pagingInv (render lc st)"
proof (cases "memoDeps st = Some (localSearchQuery st, currentCategory st, sortBy st)")
  case True
  with assms have "rendered st" by (simp add: rendered_def pagingInv_def)
  with assms show ?thesis by (simp add: render_rendered pagingInv_listener)
next
  case False
  with assms have t: "timers st = []" by (auto simp: rendered_def pagingInv_def)
  obtain s r where c: "computeFiltered lc (heap st) (localSearchQuery st) (currentCategory st) (sortBy st) = (s, r)"
    by fastforce
  define st1 where "st1 = st\<lparr>heap := s, filteredProducts := r,
    memoDeps := Some (localSearchQuery st, currentCategory st, sortBy st)\<rparr>"
  have m: "useMemo lc st = st1"
    using False c by (simp add: useMemo_def st1_def)
  have v: "validRef (heap st1) (filteredProducts st1)"
    using computeFiltered_fresh(1) [OF c] by (simp add: st1_def)
  have l: "\<not> loading st1" "timers st1 = []" "memoDeps st1 \<noteq> None"
    using assms t by (simp_all add: st1_def pagingInv_def)
  have "pagingInv (resetEffect st1)"
  proof (cases "effectDeps st1 = Some (filteredProducts st1)")
    case False
    then show ?thesis
      using pagingInv_reset [OF v l(2) l(1) _ l(3)] by simp
  next
    case True
    then have same: "filteredProducts st = r"
      using assms by (simp add: st1_def pagingInv_def)
    have "r = ExtendedProducts"
    proof (cases r)
      case (Allocated n)
      then show ?thesis
        using computeFiltered_fresh(2) [OF c Allocated] assms same by (simp add: pagingInv_def)
    qed simp
    then have "length (filteredList st1) = length (filteredList st)"
      using computeFiltered_fresh(3) [OF c] same by (simp add: st1_def filteredList_def)
    then have "pagingInv st1"
      using assms v same t by (simp add: pagingInv_def st1_def)
    then show ?thesis
      using True by (simp add: resetEffect_def)
  qed
  then show ?thesis
    unfolding render_def Let_def m by (simp add: pagingInv_listener)
qed

lemma pagingInv_mount: "pagingInv (mount lc catalog q c)"
proof -
  let ?st = "initialState catalog q c"
  obtain s r where c: "computeFiltered lc (heap ?st) q c Name = (s, r)"
    by fastforce
  define st1 where "st1 = ?st\<lparr>heap := s, filteredProducts := r, memoDeps := Some (q, c, Name)\<rparr>"
  have m: "useMemo lc ?st = st1"
    using c by (simp add: useMemo_def st1_def initialState_def)
  have "validRef (heap st1) (filteredProducts st1)"
    using computeFiltered_fresh(1) [OF c] by (simp add: st1_def)
  moreover have "timers st1 = []" "\<not> loading st1" "effectDeps st1 \<noteq> Some (filteredProducts st1)"
    "memoDeps st1 \<noteq> None"
    by (simp_all add: st1_def initialState_def)
  ultimately have "pagingInv (resetEffect st1)"
    by (rule pagingInv_reset)
  then show ?thesis
    unfolding mount_def render_def Let_def m by (simp add: pagingInv_listener)
qed

lemma pagingInv_timeoutCallback: "pagingInv st \<Longrightarrow> pagingInv (timeoutCallback st)"
  by (auto simp: pagingInv_def timeoutCallback_def filteredList_def Let_def slice_empty length_slice)

lemma pagingInv_loadMoreProducts:
  "pagingInv st \<Longrightarrow> upToDate st \<Longrightarrow> pagingInv (loadMoreProducts st)"
  by (auto simp: pagingInv_def loadMoreProducts_def upToDate_def filteredList_def rendered_def)

lemma pagingInv_step: "pagingInv st \<Longrightarrow> allowed st ev \<Longrightarrow> pagingInv (step lc st ev)"
proof (cases ev)
  case Scroll
  then show "pagingInv st \<Longrightarrow> allowed st ev \<Longrightarrow> pagingInv (step lc st ev)"
    by (simp add: pagingInv_loadMoreProducts)
next
  case Timeout
  then show "pagingInv st \<Longrightarrow> allowed st ev \<Longrightarrow> pagingInv (step lc st ev)"
    by (simp add: pagingInv_timeoutCallback)
next
  case Render
  then show "pagingInv st \<Longrightarrow> allowed st ev \<Longrightarrow> pagingInv (step lc st ev)"
    by (simp add: pagingInv_render)
qed (auto simp: pagingInv_def filteredList_def rendered_def)

lemma settled_inv: "settled lc catalog st \<Longrightarrow> pagingInv st"
  by (induction rule: settled.induct) (simp_all add: pagingInv_mount pagingInv_step)

lemma settled_reachable: "settled lc catalog st \<Longrightarrow> reachable lc catalog st"
  by (induction rule: settled.induct) (auto intro: reachable.intros)

lemma settled_run:
  "settled lc catalog st \<Longrightarrow> allowedRun lc st evs \<Longrightarrow> settled lc catalog (run lc st evs)"
proof (induction evs arbitrary: st)
  case Nil
  then show ?case by simp
next
  case (Cons ev evs)
  from Cons.prems(2) have a: "allowed st ev" and r: "allowedRun lc (step lc st ev) evs"
    by (simp_all split: if_splits)
  from Cons.prems(1) a have "settled lc catalog (step lc st ev)" by (rule settled_step)
  then show ?case using r by (simp add: Cons.IH)
qed

lemma settled_loadingState: "settled lexCompare catalog13 loadingState"
proof -
  have "allowedRun lexCompare (mount lexCompare catalog13 [] None) [Render, Scroll]"
    by code_simp
  then have "settled lexCompare catalog13 (run lexCompare (mount lexCompare catalog13 [] None) [Render, Scroll])"
    by (intro settled_run settled_mount)
  then show ?thesis by (simp add: loadingState_def renderedState_def)
qed

lemma settled_clearedState: "settled lexCompare catalog13 clearedState"
proof -
  have "allowedRun lexCompare (mount lexCompare catalog13 [] None)
      [Render, Scroll, Render, Timeout, Render, Scroll, Render, Timeout, Render]"
    by code_simp
  then have "settled lexCompare catalog13 (run lexCompare (mount lexCompare catalog13 [] None)
      [Render, Scroll, Render, Timeout, Render, Scroll, Render, Timeout, Render])"
    by (intro settled_run settled_mount)
  then show ?thesis by (simp add: clearedState_def exhaustedState_def renderedState_def)
qed

text \<open>
  Claim C6, as amended. In every state of a run in which the scroll listener is called only
  when the page has rendered since the state last changed, and no filter input changes while
  a load is pending, \<open>hasMore\<close> is true whenever the displayed list is shorter than the
  filtered list, and when \<open>hasMore\<close> is false the two have the same length; right after
  the initialisation \<open>hasMore\<close> is true exactly when the displayed list is shorter.
\<close>

theorem hasMore_while_products_remain:
  assumes "settled lc catalog st"
  shows "(length (displayedProducts st) < length (filteredList st) \<longrightarrow> hasMore st) \<and>
         (\<not> hasMore st \<longrightarrow> length (displayedProducts st) = length (filteredList st)) \<and>
         hasMore (mount lc catalog q c) =
           (length (displayedProducts (mount lc catalog q c)) < length (filteredList (mount lc catalog q c)))"
proof -
  have "pagingInv st" using assms by (rule settled_inv)
  then have a: "length (displayedProducts st) < length (filteredList st) \<longrightarrow> hasMore st"
    and b: "\<not> hasMore st \<longrightarrow> length (displayedProducts st) = length (filteredList st)"
    by (auto simp: pagingInv_def)
  have "effectDeps (useMemo lc (initialState catalog q c)) = None"
    by (simp add: initialState_def)
  then have "hasMore (mount lc catalog q c) =
      (length (displayedProducts (mount lc catalog q c)) < length (filteredList (mount lc catalog q c)))"
    by (auto simp: mount_def render_def Let_def resetEffect_def filteredList_def length_slice
          PRODUCTS_PER_LOAD_def)
  with a b show ?thesis by simp
qed

theorem hasMore_while_products_remain_witness:
  "settled lexCompare catalog13 loadingState \<and>
   length (displayedProducts loadingState) < length (filteredList loadingState) \<and>
   hasMore loadingState \<and>
   settled lexCompare catalog13 clearedState \<and>
   \<not> hasMore clearedState \<and>
   length (displayedProducts clearedState) = length (filteredList clearedState) \<and>
   length (filteredList clearedState) = 13"
proof -
  have l: "length (displayedProducts loadingState) < length (filteredList loadingState)"
    by code_simp
  have h: "\<not> hasMore clearedState"
    by code_simp
  have n: "length (filteredList clearedState) = 13"
    by code_simp
  show ?thesis
    using hasMore_while_products_remain [OF settled_loadingState]
      hasMore_while_products_remain [OF settled_clearedState]
      settled_loadingState settled_clearedState l h n
    by simp
qed

text \<open>
  Claim C6 as it is stated fails. On the catalog of thirteen products the page shows twelve;
  a load appends the thirteenth and leaves \<open>hasMore\<close> true, so \<open>hasMore\<close> is true in a
  reachable state in which the displayed list is as long as the filtered list.
\<close>

theorem hasMore_invariant_counterexample:
  "reachable lexCompare catalog13 exhaustedState \<and> hasMore exhaustedState \<and>
   \<not> length (displayedProducts exhaustedState) < length (filteredList exhaustedState)"
proof -
  have "reachable lexCompare catalog13 exhaustedState"
    unfolding exhaustedState_def by (intro reachable_run reachable_renderedState)
  moreover have "hasMore exhaustedState"
    by code_simp
  moreover have "\<not> length (displayedProducts exhaustedState) < length (filteredList exhaustedState)"
    by code_simp
  ultimately show ?thesis by simp
qed

lemma settled_displayed_le:
  "settled lc catalog st \<Longrightarrow> length (displayedProducts st) \<le> length (filteredList st)"
  using settled_inv [of lc catalog st] by (simp add: pagingInv_def)

lemma settled_timers: "settled lc catalog st \<Longrightarrow> length (timers st) \<le> 1"
  using settled_inv [of lc catalog st] by (auto simp: pagingInv_def)

section \<open>The store is only permuted\<close>

lemma computeFiltered_extended:
  "mset (extendedProducts (fst (computeFiltered lc s q c k))) = mset (extendedProducts s)"
  by (simp add: computeFiltered_def alloc_def mset_sortArray)

lemma catalogInv_listener: "catalogInv catalog (st\<lparr>listener := cl\<rparr>) = catalogInv catalog st"
  by (simp add: catalogInv_def filteredList_def)

lemma catalogInv_useMemo:
  assumes "mset (extendedProducts (heap st)) = mset catalog"
    "memoDeps st = None \<or> catalogInv catalog st"
  shows "catalogInv catalog (useMemo lc st)"
proof (cases "memoDeps st = Some (localSearchQuery st, currentCategory st, sortBy st)")
  case True
  with assms(2) show ?thesis by (auto simp: useMemo_def)
next
  case False
  obtain s r where c: "computeFiltered lc (heap st) (localSearchQuery st) (currentCategory st) (sortBy st) = (s, r)"
    by fastforce
  have "deref s r = filteredOutput lc (heap st) (localSearchQuery st) (currentCategory st) (sortBy st)"
    using c by (simp add: filteredOutput_def)
  moreover have "mset (extendedProducts s) = mset catalog"
    using computeFiltered_extended [of lc "heap st" "localSearchQuery st" "currentCategory st" "sortBy st"]
      c assms(1) by simp
  ultimately show ?thesis
    using False c assms(1)
    by (simp add: useMemo_def catalogInv_def filteredList_def filteredOutput_eq mset_sortArray)
qed

lemma catalogInv_resetEffect: "catalogInv catalog st \<Longrightarrow> catalogInv catalog (resetEffect st)"
  by (simp add: catalogInv_def filteredList_def)

lemma catalogInv_render:
  assumes "mset (extendedProducts (heap st)) = mset catalog"
    "memoDeps st = None \<or> catalogInv catalog st"
  shows "catalogInv catalog (render lc st)"
  unfolding render_def Let_def catalogInv_listener
  using assms by (intro catalogInv_resetEffect catalogInv_useMemo)

lemma catalogInv_step: "catalogInv catalog st \<Longrightarrow> catalogInv catalog (step lc st ev)"
proof (cases ev)
  case Render
  then show "catalogInv catalog st \<Longrightarrow> catalogInv catalog (step lc st ev)"
    using catalogInv_render [of st catalog lc] by (simp add: catalogInv_def)
qed (auto simp: catalogInv_def filteredList_def loadMoreProducts_def timeoutCallback_def Let_def
       split: list.splits)

lemma reachable_catalogInv: "reachable lc catalog st \<Longrightarrow> catalogInv catalog st"
proof (induction rule: reachable.induct)
  case (reachable_mount searchQuery selectedCategory)
  show ?case
    unfolding mount_def by (rule catalogInv_render) (simp_all add: initialState_def)
next
  case (reachable_step st ev)
  then show ?case by (simp add: catalogInv_step)
qed

lemma reachable_permutes_catalog:
  assumes "reachable lc catalog st"
  shows "mset (extendedProducts (heap st)) = mset catalog"
    and "rendered st \<Longrightarrow> mset (filteredList st) =
           filter_mset (satisfiesFilters (localSearchQuery st) (currentCategory st)) (mset catalog)"
  using reachable_catalogInv [OF assms]
  by (auto simp: catalogInv_def rendered_def)

lemma displayed_grows:
  "ev \<noteq> Render \<Longrightarrow> prefix (displayedProducts st) (displayedProducts (step lc st ev))"
  by (cases ev) (auto simp: loadMoreProducts_def timeoutCallback_def Let_def split: list.splits)

section \<open>Loading a page\<close>

text \<open>
  When the page is up to date and no load is pending, a call of \<^verbatim>\<open>loadMoreProducts\<close>
  followed by the callback of its timer appends the next twelve products of the filtered
  list, or sets \<open>hasMore\<close> to false when there is none.
\<close>

lemma load_completes:
  assumes "upToDate st" "\<not> loading st" "hasMore st" "timers st = []"
  shows "timeoutCallback (loadMoreProducts st) =
     (if slice (filteredList st) (length (displayedProducts st))
            (length (displayedProducts st) + PRODUCTS_PER_LOAD) = []
      then st\<lparr>hasMore := False\<rparr>
      else st\<lparr>displayedProducts := displayedProducts st @
              slice (filteredList st) (length (displayedProducts st))
                (length (displayedProducts st) + PRODUCTS_PER_LOAD)\<rparr>)"
  using assms
  by (cases st)
     (simp add: loadMoreProducts_def timeoutCallback_def filteredList_def upToDate_def Let_def)

text \<open>
  Claim C4 says that a load called with \<open>loading\<close> false and \<open>hasMore\<close> true appends the
  next twelve products of the filtered list after the displayed ones, or, when there is
  none, sets \<open>hasMore\<close> to false and leaves the displayed list as it is. On the catalog of
  thirteen products a load is called in such a state, where twelve products are displayed
  and the next slice is the thirteenth. Before its timer fires the search query becomes
  \<open>a\<close>: the filtered list and the displayed list are now the one product \<open>a\<close>, and
  nothing remains to append. The callback appends the thirteenth product all the same: the
  displayed list is neither the twelve products with the thirteenth, nor the list before
  the callback.
\<close>

theorem stale_load_appends_other_slice:
  "\<not> loading renderedState \<and> hasMore renderedState \<and>
   displayedProducts renderedState = take 12 catalog13 \<and>
   take PRODUCTS_PER_LOAD (drop (length (displayedProducts renderedState)) (filteredList renderedState)) =
     [item ''m'' ''y'' 13] \<and>
   filteredList queryChangedState = [item ''a'' ''x'' 1] \<and>
   displayedProducts queryChangedState = [item ''a'' ''x'' 1] \<and>
   filteredList staleAppendState = [item ''a'' ''x'' 1] \<and>
   displayedProducts staleAppendState = [item ''a'' ''x'' 1, item ''m'' ''y'' 13] \<and>
   \<not> loading staleAppendState"
proof -
  have "\<not> loading renderedState" "hasMore renderedState"
    "displayedProducts renderedState = take 12 catalog13"
    by code_simp+
  moreover have "take PRODUCTS_PER_LOAD (drop (length (displayedProducts renderedState))
      (filteredList renderedState)) = [item ''m'' ''y'' 13]"
    by code_simp
  moreover have "filteredList queryChangedState = [item ''a'' ''x'' 1]"
    "displayedProducts queryChangedState = [item ''a'' ''x'' 1]"
    by code_simp+
  moreover have "filteredList staleAppendState = [item ''a'' ''x'' 1]"
    "displayedProducts staleAppendState = [item ''a'' ''x'' 1, item ''m'' ''y'' 13]"
    "\<not> loading staleAppendState"
    by code_simp+
  ultimately show ?thesis by simp
qed

text \<open>
  Claim C5 says that \<^verbatim>\<open>loadMoreProducts\<close> changes nothing in a state where \<open>loading\<close> is
  true, so that at most one load is pending. The guard reads \<open>loading\<close> of the closure
  of the last render. On the catalog of thirteen products a scroll starts a load and sets
  \<open>loading\<close>; a second scroll before the page renders again passes the guard and queues
  a second timer. When both timers have fired the thirteenth product is displayed twice.
\<close>

theorem stale_guard_queues_second_load:
  "reachable lexCompare catalog13 loadingState \<and>
   loading loadingState \<and> length (timers loadingState) = 1 \<and>
   loadMoreProducts loadingState \<noteq> loadingState \<and>
   length (timers (step lexCompare loadingState Scroll)) = 2 \<and>
   length (displayedProducts twoLoadsDoneState) = 14 \<and>
   length (filteredList twoLoadsDoneState) = 13"
proof -
  have a: "loading loadingState" "length (timers loadingState) = 1"
    by code_simp+
  have b: "length (timers (loadMoreProducts loadingState)) = 2"
    by code_simp
  have c: "length (displayedProducts twoLoadsDoneState) = 14"
    "length (filteredList twoLoadsDoneState) = 13"
    by code_simp+
  from a(2) b have "loadMoreProducts loadingState \<noteq> loadingState"
    by auto
  with a b c reachable_loadingState show ?thesis by simp
qed

section \<open>The first render\<close>

lemma mount_resets:
  "filteredList (mount lc catalog q c) = filteredOutput lc (storeOf catalog) q c Name"
  "displayedProducts (mount lc catalog q c) =
     slice (filteredOutput lc (storeOf catalog) q c Name) 0 PRODUCTS_PER_LOAD"
  "hasMore (mount lc catalog q c) =
     (PRODUCTS_PER_LOAD < length (filteredOutput lc (storeOf catalog) q c Name))"
  by (simp_all add: mount_def render_def Let_def resetEffect_def useMemo_def initialState_def
        filteredList_def filteredOutput_def storeOf_def split: prod.splits)

text \<open>
  Claim C9. A page mounted on a catalog of three products with an empty search query and no
  category sorts by name: the displayed list is the three products of the catalog in the
  order of their names, its length is min(12, 3) = 3, and \<open>hasMore\<close> is false.
\<close>

theorem three_products_scenario:
  assumes "length catalog = 3" "consistentComparator (\<lambda>a b. real_of_int (lc a b))"
  shows "sortBy (mount lc catalog [] None) = Name \<and>
         displayedProducts (mount lc catalog [] None) = sortArray (compareFn lc Name) catalog \<and>
         mset (displayedProducts (mount lc catalog [] None)) = mset catalog \<and>
         sorted_wrt (\<lambda>a b. lc (name a) (name b) \<le> 0) (displayedProducts (mount lc catalog [] None)) \<and>
         length (displayedProducts (mount lc catalog [] None)) = min 12 3 \<and>
         length (displayedProducts (mount lc catalog [] None)) = 3 \<and>
         \<not> hasMore (mount lc catalog [] None)"
proof -
  have o: "filteredOutput lc (storeOf catalog) [] None Name = sortArray (compareFn lc Name) catalog"
    by (simp add: filteredOutput_eq storeOf_def satisfiesFilters_def)
  have d: "displayedProducts (mount lc catalog [] None) = sortArray (compareFn lc Name) catalog"
    using assms(1) by (simp add: mount_resets o slice_def PRODUCTS_PER_LOAD_def length_sortArray)
  have "sorted_wrt (\<lambda>a b. compareFn lc Name a b \<le> 0) (sortArray (compareFn lc Name) catalog)"
    using assms(2) by (intro sorted_sortArray consistent_name)
  then have s: "sorted_wrt (\<lambda>a b. lc (name a) (name b) \<le> 0) (sortArray (compareFn lc Name) catalog)"
    by simp
  have k: "sortBy (mount lc catalog [] None) = Name"
    by (simp add: mount_def initialState_def)
  show ?thesis
    using assms(1) s k
    by (simp add: d mset_sortArray length_sortArray mount_resets(3) o PRODUCTS_PER_LOAD_def)
qed

theorem three_products_scenario_witness:
  "length catalog3 = 3 \<and> consistentComparator (\<lambda>a b. real_of_int (lexCompare a b)) \<and>
   displayedProducts (mount lexCompare catalog3 [] None) = [chair, lamp, phone] \<and>
   \<not> hasMore (mount lexCompare catalog3 [] None)"
proof -
  have l: "length catalog3 = 3" by (simp add: catalog3_def)
  have e: "sortArray (compareFn lexCompare Name) catalog3 = [chair, lamp, phone]"
    by code_simp
  show ?thesis
    using three_products_scenario [OF l consistent_lexCompare] l consistent_lexCompare
    by (simp add: e)
qed

section \<open>Where the code departs from the specification\<close>

text \<open>
  With no search query and no category a change of the sort key sorts the catalog in place
  and leaves the displayed list as it was, whatever the catalog.
\<close>

lemma mount_inputs:
  "localSearchQuery (mount lc catalog q c) = q"
  "currentCategory (mount lc catalog q c) = c"
  "sortBy (mount lc catalog q c) = Name"
  by (simp_all add: mount_def initialState_def)

lemma mount_unfiltered:
  "filteredProducts (mount lc catalog [] None) = ExtendedProducts"
  "effectDeps (mount lc catalog [] None) = Some ExtendedProducts"
  "memoDeps (mount lc catalog [] None) = Some ([], None, Name)"
  by (simp_all add: mount_def render_def Let_def resetEffect_def useMemo_def initialState_def
        computeFiltered_def)

lemma sort_change_keeps_display:
  assumes "k \<noteq> Name"
  shows "displayedProducts (run lc (mount lc catalog [] None) [SetSortBy k, Render]) =
           displayedProducts (mount lc catalog [] None)"
    and "filteredList (run lc (mount lc catalog [] None) [SetSortBy k, Render]) =
           sortArray (compareFn lc k) (filteredList (mount lc catalog [] None))"
  using assms
  by (simp_all add: render_def Let_def resetEffect_def useMemo_def computeFiltered_def
        filteredList_def mount_unfiltered mount_inputs)

text \<open>
  Claim C3 says that after every change of a filter input the displayed list is reset to
  the first twelve products of the filtered list. With no search query and no category the
  memo sorts the array \<^verbatim>\<open>extendedProducts\<close> in place and returns that same array, so the
  reset effect, which compares its dependency by identity, does not run: on the catalog of
  two products, after the sort key changes to \<open>PriceLow\<close>, the filtered list is in the
  order of the prices and the displayed list is still in the order of the names.
\<close>

theorem sort_change_without_reset:
  "sortBy resortedState = PriceLow \<and>
   filteredList resortedState = [item ''b'' ''x'' 1, item ''a'' ''x'' 2] \<and>
   displayedProducts resortedState = [item ''a'' ''x'' 2, item ''b'' ''x'' 1] \<and>
   displayedProducts resortedState \<noteq> slice (filteredList resortedState) 0 PRODUCTS_PER_LOAD"
  unfolding resortedState_def by code_simp

text \<open>
  Claim C7 says that the displayed list is never longer than the filtered list, also when a
  load completes after a filter input has changed. On the catalog of thirteen products a
  load is started, then the search query becomes \<open>m\<close>, which one product matches, and the
  displayed list is reset to that product; the pending callback then appends the slice of
  the array it captured, and the displayed list has two products while the filtered list
  has one.
\<close>

theorem stale_load_exceeds_filtered:
  "reachable lexCompare catalog13 staleSearchState \<and>
   length (filteredList staleSearchState) = 1 \<and>
   length (displayedProducts staleSearchState) = 2 \<and>
   \<not> length (displayedProducts staleSearchState) \<le> length (filteredList staleSearchState)"
proof -
  have "reachable lexCompare catalog13 staleSearchState"
    unfolding staleSearchState_def by (intro reachable_run reachable_loadingState)
  moreover have "length (filteredList staleSearchState) = 1"
    by code_simp
  moreover have "length (displayedProducts staleSearchState) = 2"
    by code_simp
  ultimately show ?thesis by simp
qed

text \<open>
  Claim C8 says that between changes of the filter inputs the displayed list is a prefix of
  the filtered list and each completed load extends that prefix. On the catalog of thirteen
  products a load is started and the category becomes \<open>y\<close>, which one product has; the
  displayed list is then that product, a prefix of the filtered list. The load completes
  with no further change of a filter input and appends the product a second time: the
  displayed list is no prefix of the filtered list.
\<close>

theorem stale_load_breaks_prefix:
  "filteredList staleCategoryState = [item ''m'' ''y'' 13] \<and>
   displayedProducts categoryChangedState = [item ''m'' ''y'' 13] \<and>
   displayedProducts staleCategoryState = [item ''m'' ''y'' 13, item ''m'' ''y'' 13] \<and>
   \<not> prefix (displayedProducts staleCategoryState) (filteredList staleCategoryState)"
proof -
  have a: "filteredList staleCategoryState = [item ''m'' ''y'' 13]"
    by code_simp
  have b: "displayedProducts categoryChangedState = [item ''m'' ''y'' 13]"
    by code_simp
  have c: "displayedProducts staleCategoryState = [item ''m'' ''y'' 13, item ''m'' ''y'' 13]"
    by code_simp
  show ?thesis unfolding a b c by simp
qed

end
